theory Spec2Isabelle
  imports Complex_Main "HOL-Library.Word" "HOL-Library.Log_Nat"
begin

section \<open>Strings of UTF-16 code units\<close>

text \<open>
  A JavaScript string is a sequence of 16-bit code units. The regular expressions of
  \<^verbatim>\<open>scripts/sum_tables.js\<close> carry no \<^verbatim>\<open>u\<close> flag, so every character class and
  the dot consume exactly one code unit.
\<close>

type_synonym jschar = "16 word"
type_synonym jsstring = "jschar list"

definition js :: "string \<Rightarrow> jsstring" where
  "js = map of_char"

text \<open>The class \<^verbatim>\<open>\d\<close>, which is \<^verbatim>\<open>[0-9]\<close>.\<close>

definition is_digit :: "jschar \<Rightarrow> bool" where
  "is_digit c = (48 \<le> c \<and> c \<le> 57)"

text \<open>The line terminators LF, CR, U+2028 and U+2029: what the dot does not match.\<close>

definition is_line_terminator :: "jschar \<Rightarrow> bool" where
  "is_line_terminator c = (c = 10 \<or> c = 13 \<or> c = 8232 \<or> c = 8233)"

text \<open>
  The class \<^verbatim>\<open>\s\<close>: white space (TAB, VT, FF, SP, NBSP, U+1680, U+2000 to U+200A, U+202F,
  U+205F, U+3000, U+FEFF) and the line terminators. \<^verbatim>\<open>String.prototype.trim\<close> removes the
  same set.
\<close>

definition is_space :: "jschar \<Rightarrow> bool" where
  "is_space c =
     (c = 9 \<or> c = 11 \<or> c = 12 \<or> c = 32 \<or> c = 160 \<or> c = 5760 \<or> (8192 \<le> c \<and> c \<le> 8202)
      \<or> c = 8239 \<or> c = 8287 \<or> c = 12288 \<or> c = 65279 \<or> is_line_terminator c)"

definition trim :: "jsstring \<Rightarrow> jsstring" where
  "trim s = rev (dropWhile is_space (rev (dropWhile is_space s)))"

text \<open>
  \<^verbatim>\<open>lastIndexOf\<close> of a single code unit: the index of its last occurrence, or -1.
\<close>

definition lastIndexOf :: "jsstring \<Rightarrow> jschar \<Rightarrow> int" where
  "lastIndexOf s c =
     (if c \<in> set s then int (length s) - 1 - int (length (takeWhile (\<lambda>x. x \<noteq> c) (rev s)))
      else - 1)"

text \<open>
  \<^verbatim>\<open>slice(start, end)\<close>: a negative index counts from the end, and both are clamped to
  the string.
\<close>

definition slice_index :: "jsstring \<Rightarrow> int \<Rightarrow> nat" where
  "slice_index s i =
     (if i < 0 then nat (max (int (length s) + i) 0) else nat (min i (int (length s))))"

definition str_slice :: "jsstring \<Rightarrow> int \<Rightarrow> int \<Rightarrow> jsstring" where
  "str_slice s start fin = drop (slice_index s start) (take (slice_index s fin) s)"

definition str_slice_from :: "jsstring \<Rightarrow> int \<Rightarrow> jsstring" where
  "str_slice_from s start = drop (slice_index s start) s"

section \<open>Regular expressions\<close>

text \<open>
  The regular expressions of the script are sequences of four kinds of item: one code unit
  of a class, a greedy star of a class, and the anchors \<^verbatim>\<open>^\<close> and \<^verbatim>\<open>$\<close> (no
  \<^verbatim>\<open>m\<close> flag: start and end of the input). \<open>match_items\<close> is the backtracking matcher
  at one position: a star first tries to take one more code unit and gives it back when
  the rest of the pattern fails. It returns what is left of the input after the match.
  The flag says whether the position is the start of the input.
\<close>

datatype item = One "jschar \<Rightarrow> bool" | Star "jschar \<Rightarrow> bool" | Bos | Eos

fun match_items :: "item list \<Rightarrow> bool \<Rightarrow> jsstring \<Rightarrow> jsstring option" where
  "match_items [] b s = Some s"
| "match_items (Bos # r) b s = (if b then match_items r b s else None)"
| "match_items (Eos # r) b s = (if s = [] then match_items r b s else None)"
| "match_items (One p # r) b [] = None"
| "match_items (One p # r) b (c # cs) = (if p c then match_items r False cs else None)"
| "match_items (Star p # r) b [] = match_items r b []"
| "match_items (Star p # r) b (c # cs) =
     (if p c then
        (case match_items (Star p # r) False cs of
           Some rest \<Rightarrow> Some rest
         | None \<Rightarrow> match_items r b (c # cs))
      else match_items r b (c # cs))"

text \<open>The first position, from the left, at which the pattern matches.\<close>

fun regex_search :: "item list \<Rightarrow> bool \<Rightarrow> jsstring \<Rightarrow> (jsstring \<times> jsstring) option" where
  "regex_search re b [] =
     (case match_items re b [] of Some rest \<Rightarrow> Some ([], rest) | None \<Rightarrow> None)"
| "regex_search re b (c # cs) =
     (case match_items re b (c # cs) of
        Some rest \<Rightarrow> Some (c # cs, rest)
      | None \<Rightarrow> regex_search re False cs)"

text \<open>\<^verbatim>\<open>RegExp.prototype.test\<close> of a pattern without the \<^verbatim>\<open>g\<close> flag.\<close>

definition test :: "item list \<Rightarrow> jsstring \<Rightarrow> bool" where
  "test re s = (regex_search re True s \<noteq> None)"

text \<open>
  The matches of a pattern with the \<^verbatim>\<open>g\<close> flag, left to right: after a match the search
  resumes where it ended, and one code unit further after an empty match.
\<close>

function match_all :: "item list \<Rightarrow> bool \<Rightarrow> jsstring \<Rightarrow> jsstring list" where
  "match_all re b [] = (case match_items re b [] of Some rest \<Rightarrow> [[]] | None \<Rightarrow> [])"
| "match_all re b (c # cs) =
     (case match_items re b (c # cs) of
        None \<Rightarrow> match_all re False cs
      | Some rest \<Rightarrow>
          if length rest < Suc (length cs)
          then take (Suc (length cs) - length rest) (c # cs) # match_all re False rest
          else [] # match_all re False cs)"
  by pat_completeness auto
termination
  by (relation "measure (\<lambda>(re, b, s). length s)") auto

text \<open>\<^verbatim>\<open>String.prototype.match\<close> with a global pattern: \<^verbatim>\<open>null\<close> when nothing matches.\<close>

definition js_match :: "item list \<Rightarrow> jsstring \<Rightarrow> jsstring list option" where
  "js_match re s = (case match_all re True s of [] \<Rightarrow> None | m # ms \<Rightarrow> Some (m # ms))"

section \<open>Numbers\<close>

text \<open>
  A Number is an IEEE 754 double: NaN, an infinity with its sign, or a finite value with
  its sign and its magnitude (so that -0 is \<open>Fin True 0\<close>).
\<close>

datatype number = NaN | Inf bool | Fin bool rat

definition round_half_even :: "rat \<Rightarrow> int" where
  "round_half_even z =
     (let f = \<lfloor>z\<rfloor>; d = z - of_int f
      in if d < 1 / 2 then f else if 1 / 2 < d then f + 1 else if even f then f else f + 1)"

text \<open>The binary exponent of a positive rational: \<open>2 powi e \<le> x < 2 powi (e + 1)\<close>.\<close>

definition ilog2 :: "rat \<Rightarrow> int" where
  "ilog2 x =
     (let e0 = bitlen (fst (quotient_of x)) - bitlen (snd (quotient_of x))
      in if 2 powi e0 \<le> x then e0 else e0 - 1)"

text \<open>
  Rounding a magnitude to the nearest double, ties to even: 53 significant bits, exponents
  from -1022 (below that the spacing stays \<open>2 powi (-1074)\<close>), and infinity from
  \<open>2 powi 1024\<close> on.
\<close>

definition fp_round :: "bool \<Rightarrow> rat \<Rightarrow> number" where
  "fp_round sg x =
     (if x \<le> 0 then Fin sg 0
      else
        let e = max (ilog2 x) (- 1022);
            q = 2 powi (e - 52);
            y = of_int (round_half_even (x / q)) * q
        in if 2 powi 1024 \<le> y then Inf sg else Fin sg y)"

text \<open>The Number value for a rational: what a numeric literal of that value denotes.\<close>

definition fp :: "rat \<Rightarrow> number" where
  "fp r = fp_round (r < 0) \<bar>r\<bar>"

definition fp_neg :: "number \<Rightarrow> number" where
  "fp_neg v = (case v of NaN \<Rightarrow> NaN | Inf sg \<Rightarrow> Inf (\<not> sg) | Fin sg m \<Rightarrow> Fin (\<not> sg) m)"

definition fp_abs :: "number \<Rightarrow> number" where
  "fp_abs v = (case v of NaN \<Rightarrow> NaN | Inf sg \<Rightarrow> Inf False | Fin sg m \<Rightarrow> Fin False m)"

definition fp_val :: "bool \<Rightarrow> rat \<Rightarrow> rat" where
  "fp_val sg m = (if sg then - m else m)"

text \<open>
  Addition of doubles: the exact sum, rounded. An exact sum of zero is +0 unless both
  operands are negative (that is, both are -0).
\<close>

fun fp_add :: "number \<Rightarrow> number \<Rightarrow> number" where
  "fp_add NaN y = NaN"
| "fp_add x NaN = NaN"
| "fp_add (Inf s) (Inf t) = (if s = t then Inf s else NaN)"
| "fp_add (Inf s) (Fin t m) = Inf s"
| "fp_add (Fin s m) (Inf t) = Inf t"
| "fp_add (Fin s m) (Fin t n) =
     (let r = fp_val s m + fp_val t n
      in if r = 0 then Fin (s \<and> t) 0 else fp_round (r < 0) \<bar>r\<bar>)"

subsection \<open>Number applied to a string\<close>

definition digit_val :: "jschar \<Rightarrow> nat" where
  "digit_val c = unat c - 48"

definition dec_val :: "jsstring \<Rightarrow> nat" where
  "dec_val ds = foldl (\<lambda>a c. 10 * a + digit_val c) 0 ds"

text \<open>The value of a code unit as a digit of a base up to 16, if it is one.\<close>

definition radix_digit :: "nat \<Rightarrow> jschar \<Rightarrow> nat option" where
  "radix_digit base c =
     (let v = (if is_digit c then Some (unat c - 48)
               else if 97 \<le> c \<and> c \<le> 102 then Some (unat c - 87)
               else if 65 \<le> c \<and> c \<le> 70 then Some (unat c - 55)
               else None)
      in case v of None \<Rightarrow> None | Some d \<Rightarrow> if d < base then Some d else None)"

definition radix_val :: "nat \<Rightarrow> jsstring \<Rightarrow> nat" where
  "radix_val base ds = foldl (\<lambda>a c. base * a + the (radix_digit base c)) 0 ds"

text \<open>The base announced by \<^verbatim>\<open>0x\<close>, \<^verbatim>\<open>0o\<close> or \<^verbatim>\<open>0b\<close> (either case), and the digits.\<close>

definition radix_prefix :: "jsstring \<Rightarrow> (nat \<times> jsstring) option" where
  "radix_prefix t =
     (case t of
        z # x # ds \<Rightarrow>
          if z \<noteq> 48 then None
          else if x = 120 \<or> x = 88 then Some (16, ds)
          else if x = 111 \<or> x = 79 then Some (8, ds)
          else if x = 98 \<or> x = 66 then Some (2, ds)
          else None
      | _ \<Rightarrow> None)"

text \<open>
  An exponent part: \<^verbatim>\<open>e\<close> or \<^verbatim>\<open>E\<close>, an optional sign, and at least one digit. The
  empty string is the absent exponent.
\<close>

definition exponent_part :: "jsstring \<Rightarrow> int option" where
  "exponent_part r =
     (case r of
        [] \<Rightarrow> Some 0
      | c # cs \<Rightarrow>
          if c = 101 \<or> c = 69 then
            (let neg = (case cs of [] \<Rightarrow> False | d # ds \<Rightarrow> d = 45);
                 ds = (case cs of [] \<Rightarrow> [] | d # ds \<Rightarrow> if d = 43 \<or> d = 45 then ds else cs)
             in if ds \<noteq> [] \<and> list_all is_digit ds
                then Some (if neg then - int (dec_val ds) else int (dec_val ds))
                else None)
          else None)"

text \<open>
  An unsigned decimal literal: \<^verbatim>\<open>Infinity\<close>, or digits with an optional fraction and an
  optional exponent, with a digit before or after the dot. The sign is the caller's.
\<close>

definition unsigned_decimal :: "bool \<Rightarrow> jsstring \<Rightarrow> number" where
  "unsigned_decimal sg u =
     (if u = js ''Infinity'' then Inf sg
      else
        let ip = takeWhile is_digit u;
            r1 = dropWhile is_digit u;
            dotted = (r1 \<noteq> [] \<and> hd r1 = 46);
            fr = (if dotted then takeWhile is_digit (tl r1) else []);
            r2 = (if dotted then dropWhile is_digit (tl r1) else r1)
        in if ip = [] \<and> fr = [] then NaN
           else
             (case exponent_part r2 of
                None \<Rightarrow> NaN
              | Some ex \<Rightarrow>
                  fp_round sg (of_nat (dec_val (ip @ fr)) * 10 powi (ex - int (length fr)))))"

text \<open>
  \<^verbatim>\<open>Number(str)\<close> for a string: white space is trimmed, the empty string is +0, a
  radix prefix announces an unsigned integer in that base, and anything else is a decimal
  literal with an optional sign, or NaN.
\<close>

definition Number :: "jsstring \<Rightarrow> number" where
  "Number s =
     (let t = trim s
      in if t = [] then Fin False 0
         else
           (case radix_prefix t of
              Some (base, ds) \<Rightarrow>
                if ds \<noteq> [] \<and> list_all (\<lambda>c. radix_digit base c \<noteq> None) ds
                then fp_round False (of_nat (radix_val base ds))
                else NaN
            | None \<Rightarrow>
                if hd t = 45 then unsigned_decimal True (tl t)
                else if hd t = 43 then unsigned_decimal False (tl t)
                else unsigned_decimal False t))"

section \<open>parseNumberFromString\<close>

text \<open>Line 34: \<^verbatim>\<open>str.replace(/[^\d\.\-,\(\)\s]/g, '')\<close>.\<close>

definition kept :: "jschar \<Rightarrow> bool" where
  "kept c = (is_digit c \<or> c = 46 \<or> c = 45 \<or> c = 44 \<or> c = 40 \<or> c = 41 \<or> is_space c)"

definition strip_chars :: "jsstring \<Rightarrow> jsstring" where
  "strip_chars str = filter kept str"

text \<open>Line 37: the pattern \<^verbatim>\<open>/^\s*\(.*\)\s*$/\<close>.\<close>

definition paren_re :: "item list" where
  "paren_re =
     [Bos, Star is_space, One (\<lambda>c. c = 40), Star (\<lambda>c. \<not> is_line_terminator c),
      One (\<lambda>c. c = 41), Star is_space, Eos]"

text \<open>Line 38: \<^verbatim>\<open>str.replace(/[()]/g, '')\<close>.\<close>

definition remove_parens :: "jsstring \<Rightarrow> jsstring" where
  "remove_parens str = filter (\<lambda>c. \<not> (c = 40 \<or> c = 41)) str"

text \<open>Line 41: \<^verbatim>\<open>str.replace(/\s+/g, '')\<close>.\<close>

definition remove_spaces :: "jsstring \<Rightarrow> jsstring" where
  "remove_spaces str = filter (\<lambda>c. \<not> is_space c) str"

text \<open>\<^verbatim>\<open>str.replace(/,/g, '')\<close>, \<^verbatim>\<open>str.replace(/\./g, '')\<close> and \<^verbatim>\<open>str.replace(/,/g, '.')\<close>.\<close>

definition remove_commas :: "jsstring \<Rightarrow> jsstring" where
  "remove_commas str = filter (\<lambda>c. c \<noteq> 44) str"

definition remove_dots :: "jsstring \<Rightarrow> jsstring" where
  "remove_dots str = filter (\<lambda>c. c \<noteq> 46) str"

definition commas_to_dots :: "jsstring \<Rightarrow> jsstring" where
  "commas_to_dots str = map (\<lambda>c. if c = 44 then 46 else c) str"

text \<open>Line 45: \<^verbatim>\<open>(str.match(/\./g) || []).length\<close>.\<close>

definition dotCount :: "jsstring \<Rightarrow> nat" where
  "dotCount str =
     (case js_match [One (\<lambda>c. c = 46)] str of None \<Rightarrow> 0 | Some ms \<Rightarrow> length ms)"

text \<open>Lines 46 to 53: the commas go, and of several dots only the last one stays.\<close>

definition resolve_separators :: "jsstring \<Rightarrow> jsstring" where
  "resolve_separators str =
     (if dotCount str \<le> 1 then remove_commas str
      else
        let str = remove_commas str;
            lastDotIndex = lastIndexOf str 46
        in remove_dots (str_slice str 0 lastDotIndex) @ str_slice_from str lastDotIndex)"

text \<open>Lines 56 to 65: the parse, its retry, and the sign of a parenthesised number.\<close>

definition to_value :: "bool \<Rightarrow> jsstring \<Rightarrow> number option" where
  "to_value isParenNeg str =
     (let v = Number str;
          v = (if v = NaN then Number (commas_to_dots str) else v)
      in if v = NaN then None
         else Some (if isParenNeg then fp_neg (fp_abs v) else v))"

text \<open>
  The function itself. Its argument is a string (every caller passes a match of a
  pattern), so the test for \<^verbatim>\<open>null\<close> and \<^verbatim>\<open>undefined\<close> has no branch here;
  \<open>None\<close> is the \<^verbatim>\<open>null\<close> it returns.
\<close>

definition parseNumberFromString :: "jsstring \<Rightarrow> number option" where
  "parseNumberFromString s =
     (let str = trim s
      in if str = [] then None
         else
           let str = strip_chars str;
               isParenNeg = test paren_re str;
               str = remove_parens str;
               str = remove_spaces str;
               str = resolve_separators str
           in to_value isParenNeg str)"

text \<open>The same function with the retry of lines 58 to 61 deleted.\<close>

definition to_value_no_retry :: "bool \<Rightarrow> jsstring \<Rightarrow> number option" where
  "to_value_no_retry isParenNeg str =
     (let v = Number str
      in if v = NaN then None
         else Some (if isParenNeg then fp_neg (fp_abs v) else v))"

definition parseNumberFromString_no_retry :: "jsstring \<Rightarrow> number option" where
  "parseNumberFromString_no_retry s =
     (let str = trim s
      in if str = [] then None
         else
           let str = strip_chars str;
               isParenNeg = test paren_re str;
               str = remove_parens str;
               str = remove_spaces str;
               str = resolve_separators str
           in to_value_no_retry isParenNeg str)"

section \<open>The page subtotal\<close>

text \<open>Line 158: the pattern \<^verbatim>\<open>/[\-()]*\s*[0-9][0-9\.,\(\)\s]*[0-9]/g\<close>.\<close>

definition token_re :: "item list" where
  "token_re =
     [Star (\<lambda>c. c = 45 \<or> c = 40 \<or> c = 41), Star is_space, One is_digit,
      Star (\<lambda>c. is_digit c \<or> c = 46 \<or> c = 44 \<or> c = 40 \<or> c = 41 \<or> is_space c),
      One is_digit]"

text \<open>Lines 160 to 163: the loop over the tokens of one cell.\<close>

fun add_tokens :: "number \<Rightarrow> jsstring list \<Rightarrow> number" where
  "add_tokens subtotal [] = subtotal"
| "add_tokens subtotal (t # ts) =
     (case parseNumberFromString t of
        None \<Rightarrow> add_tokens subtotal ts
      | Some v \<Rightarrow> add_tokens (fp_add subtotal v) ts)"

text \<open>Lines 157 to 164 (and 149 to 156): the loop over the cell texts.\<close>

fun add_cells :: "number \<Rightarrow> jsstring list \<Rightarrow> number" where
  "add_cells subtotal [] = subtotal"
| "add_cells subtotal (s # ss) =
     (case js_match token_re s of
        None \<Rightarrow> add_cells subtotal ss
      | Some tokens \<Rightarrow> add_cells (add_tokens subtotal tokens) ss)"

definition accumulate :: "jsstring list \<Rightarrow> number" where
  "accumulate cellTexts = add_cells (Fin False 0) cellTexts"

text \<open>
  Lines 145 to 165: the subtotal of a page, from the texts of its table cells or, when
  there are none, from those of its role-based cells.
\<close>

definition pageNumbersTotal :: "jsstring list \<Rightarrow> jsstring list \<Rightarrow> number" where
  "pageNumbersTotal rawCellTexts alt =
     (if length rawCellTexts = 0 then accumulate alt else accumulate rawCellTexts)"

section \<open>Notions of the statements\<close>

text \<open>The string that \<open>parseNumberFromString\<close> hands to \<^verbatim>\<open>Number\<close> (line 56).\<close>

definition cleaned :: "jsstring \<Rightarrow> jsstring" where
  "cleaned s = resolve_separators (remove_spaces (remove_parens (strip_chars (trim s))))"





section \<open>Rounding to a double\<close>

lemma round_half_even_of_int: "round_half_even (of_int k) = k"
  by (simp add: round_half_even_def)

lemma powi_int_nat: "0 \<le> e \<Longrightarrow> (2::rat) powi e = 2 ^ nat e"
  by (simp add: power_int_def)

lemma powi_le_of_int: "0 \<le> e \<Longrightarrow> 2 ^ nat e \<le> a \<Longrightarrow> (2::rat) powi e \<le> of_int a"
proof -
  assume e: "0 \<le> e" and le: "2 ^ nat e \<le> a"
  have "(of_int (2 ^ nat e) :: rat) \<le> of_int a" using le by (simp only: of_int_le_iff)
  then show ?thesis using e by (simp add: powi_int_nat)
qed

lemma of_int_less_powi: "0 \<le> e \<Longrightarrow> a < 2 ^ nat e \<Longrightarrow> of_int a < (2::rat) powi e"
proof -
  assume e: "0 \<le> e" and le: "a < 2 ^ nat e"
  have "(of_int a :: rat) < of_int (2 ^ nat e)" using le by (simp only: of_int_less_iff)
  then show ?thesis using e by (simp add: powi_int_nat)
qed

lemma ilog2_bounds:
  assumes "0 < x"
  shows "2 powi (ilog2 x) \<le> x \<and> x < 2 powi (ilog2 x + 1)"
proof -
  obtain a b where ab: "quotient_of x = (a, b)" by (cases "quotient_of x")
  have bpos: "0 < b" using ab quotient_of_denom_pos by blast
  have x: "x = of_int a / of_int b" using ab quotient_of_div by blast
  have apos: "0 < a" using assms bpos x
    by (simp add: zero_less_divide_iff)
  define A where "A = bitlen a"
  define B where "B = bitlen b"
  have A1: "1 \<le> A" using apos by (simp add: A_def bitlen_alt_def)
  have B1: "1 \<le> B" using bpos by (simp add: B_def bitlen_alt_def)
  have ba: "2 ^ nat (A - 1) \<le> a" "a < 2 ^ nat A"
    using bitlen_bounds [OF apos] by (simp_all add: A_def)
  have bb: "2 ^ nat (B - 1) \<le> b" "b < 2 ^ nat B"
    using bitlen_bounds [OF bpos] by (simp_all add: B_def)
  have ra: "(2::rat) powi (A - 1) \<le> of_int a" "of_int a < (2::rat) powi A"
    using ba A1 by (simp_all add: powi_le_of_int of_int_less_powi)
  have rb: "(2::rat) powi (B - 1) \<le> of_int b" "of_int b < (2::rat) powi B"
    using bb B1 by (simp_all add: powi_le_of_int of_int_less_powi)
  have "x < 2 powi A / 2 powi (B - 1)"
    unfolding x using ra rb apos by (intro frac_less) simp_all
  then have up: "x < 2 powi (A - B + 1)"
    by (simp add: power_int_diff power_int_add)
  have "2 powi (A - 1) / 2 powi B < x"
    unfolding x using ra rb bpos by (intro frac_less2) simp_all
  then have lo: "2 powi (A - B - 1) < x"
    by (simp add: power_int_diff)
  show ?thesis
    using up lo by (simp add: ilog2_def ab A_def [symmetric] B_def [symmetric] Let_def)
qed

lemma fp_round_of_int:
  assumes "0 < n" "n \<le> 2 ^ 53"
  shows "fp_round sg (of_int n) = Fin sg (of_int n)"
proof -
  define x :: rat where "x = of_int n"
  define e where "e = ilog2 x"
  have xpos: "0 < x" using assms by (simp add: x_def)
  have b: "2 powi e \<le> x" "x < 2 powi (e + 1)"
    using ilog2_bounds [OF xpos] by (simp_all add: e_def)
  have e0: "0 \<le> e"
  proof (rule ccontr)
    assume "\<not> 0 \<le> e"
    then have "e + 1 \<le> 0" by simp
    then have "(2::rat) powi (e + 1) \<le> 2 powi 0"
      by (intro power_int_increasing) simp_all
    then have "x < 1" using b by simp
    then show False using assms by (simp add: x_def)
  qed
  have "(of_int n :: rat) \<le> of_int (2 ^ 53)" using assms(2) by (simp only: of_int_le_iff)
  then have x53: "x \<le> 2 powi 53" by (simp add: x_def)
  have e53: "e \<le> 53"
  proof (rule ccontr)
    assume "\<not> e \<le> 53"
    then have "54 \<le> e" by simp
    then have "(2::rat) powi 54 \<le> 2 powi e"
      by (intro power_int_increasing) simp_all
    then show False using b x53 by simp
  qed
  have q: "\<exists>k. x / 2 powi (e - 52) = of_int k"
  proof (cases "e \<le> 52")
    case True
    have "x / 2 powi (e - 52) = x * 2 powi (52 - e)"
      by (simp add: power_int_diff)
    also have "\<dots> = of_int (n * 2 ^ nat (52 - e))"
      using True by (simp add: x_def powi_int_nat)
    finally show ?thesis by blast
  next
    case False
    then have e: "e = 53" using e53 by simp
    then have "x = 2 powi 53" using b x53 by simp
    then have "x / 2 powi (e - 52) = of_int (2 ^ 52)" by (simp add: e)
    then show ?thesis by blast
  qed
  then obtain k where k: "x / 2 powi (e - 52) = of_int k" by blast
  have y: "of_int (round_half_even (x / 2 powi (e - 52))) * 2 powi (e - 52) = x"
  proof -
    have "of_int (round_half_even (x / 2 powi (e - 52))) = x / 2 powi (e - 52)"
      by (simp only: k round_half_even_of_int)
    then show ?thesis by simp
  qed
  have nov: "\<not> 2 powi 1024 \<le> x"
  proof -
    have "(2::rat) powi 53 < 2 powi 1024" by (intro power_int_strict_increasing) simp_all
    then show ?thesis using x53 by simp
  qed
  have "max e (- 1022) = e" using e0 by simp
  then show ?thesis
    using xpos y nov by (simp add: fp_round_def Let_def x_def [symmetric] e_def [symmetric])
qed

lemma fp_round_numeral:
  "numeral k \<le> (2 ^ 53 :: int) \<Longrightarrow> fp_round sg (numeral k) = Fin sg (numeral k)"
  using fp_round_of_int [of "numeral k" sg] by simp

lemma fp_round_not_NaN [simp]: "fp_round sg x \<noteq> NaN"
  by (simp add: fp_round_def Let_def)

lemma fp_abs_round [simp]: "fp_abs (fp_round sg x) = fp_round False x"
  by (simp add: fp_round_def fp_abs_def Let_def)

lemma fp_neg_round [simp]: "fp_neg (fp_round sg x) = fp_round (\<not> sg) x"
  by (simp add: fp_round_def fp_neg_def Let_def)

lemmas char_defs = is_digit_def is_space_def is_line_terminator_def kept_def
lemmas str_defs = js_def trim_def strip_chars_def remove_parens_def remove_spaces_def
  remove_commas_def remove_dots_def commas_to_dots_def lastIndexOf_def str_slice_def
  str_slice_from_def slice_index_def
lemmas re_defs = test_def js_match_def paren_re_def token_re_def dotCount_def
lemmas num_defs = Number_def unsigned_decimal_def exponent_part_def radix_prefix_def
  dec_val_def digit_val_def


section \<open>The matcher\<close>

lemma match_items_One:
  "match_items re b s = Some rest \<Longrightarrow> One p \<in> set re \<Longrightarrow> \<exists>c\<in>set s. p c"
  by (induction re b s arbitrary: rest rule: match_items.induct)
     (auto split: if_splits option.splits)

lemma match_all_none:
  "\<forall>c\<in>set s. \<not> p c \<Longrightarrow> One p \<in> set re \<Longrightarrow> match_all re b s = []"
proof (induction s arbitrary: b)
  case Nil
  have "match_items re b [] = None"
  proof (cases "match_items re b []")
    case (Some rest)
    then show ?thesis using match_items_One [OF Some Nil(2)] by simp
  qed simp
  then show ?case by simp
next
  case (Cons c cs)
  have "match_items re b (c # cs) = None"
  proof (cases "match_items re b (c # cs)")
    case (Some rest)
    then show ?thesis using match_items_One [OF Some Cons(3)] Cons(2) by blast
  qed simp
  then show ?case using Cons by simp
qed



lemma trim_decompose:
  "\<exists>ws1 ws2. list_all is_space ws1 \<and> list_all is_space ws2 \<and> s = ws1 @ trim s @ ws2"
proof -
  define d where "d = dropWhile is_space s"
  have s: "s = takeWhile is_space s @ d" by (simp add: d_def)
  have "rev (dropWhile is_space (rev d)) @ rev (takeWhile is_space (rev d)) = rev (rev d)"
    by (metis rev_append takeWhile_dropWhile_id)
  then have d: "d = trim s @ rev (takeWhile is_space (rev d))"
    by (simp add: trim_def d_def)
  have a: "list_all is_space (takeWhile is_space s)"
    by (simp add: list_all_iff) (meson set_takeWhileD)
  have b: "list_all is_space (rev (takeWhile is_space (rev d)))"
    by (simp add: list_all_iff) (meson set_takeWhileD)
  show ?thesis using s d a b by (metis append_assoc)
qed

lemma test_paren_no_open: "40 \<notin> set s \<Longrightarrow> \<not> test paren_re s"
proof -
  assume n: "40 \<notin> set s"
  have m: "match_items paren_re b t = None" if "set t \<subseteq> set s" for b t
  proof (cases "match_items paren_re b t")
    case (Some rest)
    have "One (\<lambda>c. c = 40) \<in> set paren_re" by (simp add: paren_re_def)
    from match_items_One [OF Some this] that n show ?thesis by auto
  qed simp
  have "regex_search paren_re b t = None" if "set t \<subseteq> set s" for b t
    using that by (induction t arbitrary: b) (simp_all add: m)
  then show ?thesis by (simp add: test_def)
qed

lemma star_split:
  "match_items (Star p # r) b s = Some rest \<Longrightarrow>
   \<exists>xs s' b'. s = xs @ s' \<and> list_all p xs \<and> match_items r b' s' = Some rest"
proof (induction s arbitrary: b)
  case Nil
  then show ?case by (intro exI [of _ "[]"]) auto
next
  case (Cons c cs)
  show ?case
  proof (cases "p c \<and> match_items (Star p # r) False cs \<noteq> None")
    case True
    then have "match_items (Star p # r) False cs = Some rest"
      using Cons.prems by (auto split: option.splits)
    from Cons.IH [OF this] obtain xs s' b' where
      "cs = xs @ s'" "list_all p xs" "match_items r b' s' = Some rest" by blast
    then have "c # cs = (c # xs) @ s' \<and> list_all p (c # xs) \<and> match_items r b' s' = Some rest"
      using True by simp
    then show ?thesis by blast
  next
    case False
    then have "match_items r b (c # cs) = Some rest"
      using Cons.prems by (auto split: option.splits if_splits)
    then have "c # cs = [] @ (c # cs) \<and> list_all p [] \<and> match_items r b (c # cs) = Some rest"
      by simp
    then show ?thesis by blast
  qed
qed

lemma one_split:
  "match_items (One p # r) b s = Some rest \<Longrightarrow>
   \<exists>c cs. s = c # cs \<and> p c \<and> match_items r False cs = Some rest"
  by (cases s) (auto split: if_splits)

lemma paren_re_sound:
  assumes "test paren_re str"
  shows "\<exists>a m c. str = a @ 40 # m @ 41 # c \<and> list_all is_space a
           \<and> list_all (\<lambda>c. \<not> is_line_terminator c) m \<and> list_all is_space c"
proof -
  have nb: "regex_search paren_re False t = None" for t
    by (induction t) (simp_all add: paren_re_def)
  have "match_items paren_re True str \<noteq> None"
    using assms nb by (cases str) (auto simp: test_def split: option.splits)
  then obtain rest where
    "match_items [Star is_space, One (\<lambda>c. c = 40), Star (\<lambda>c. \<not> is_line_terminator c),
       One (\<lambda>c. c = 41), Star is_space, Eos] True str = Some rest"
    by (auto simp: paren_re_def)
  from star_split [OF this] obtain a s1 b1 where 1: "str = a @ s1" "list_all is_space a"
    "match_items [One (\<lambda>c. c = 40), Star (\<lambda>c. \<not> is_line_terminator c),
       One (\<lambda>c. c = 41), Star is_space, Eos] b1 s1 = Some rest" by blast
  from one_split [OF 1(3)] obtain s2 where 2: "s1 = 40 # s2"
    "match_items [Star (\<lambda>c. \<not> is_line_terminator c),
       One (\<lambda>c. c = 41), Star is_space, Eos] False s2 = Some rest" by blast
  from star_split [OF 2(2)] obtain m s3 b3 where 3: "s2 = m @ s3"
    "list_all (\<lambda>c. \<not> is_line_terminator c) m"
    "match_items [One (\<lambda>c. c = 41), Star is_space, Eos] b3 s3 = Some rest" by blast
  from one_split [OF 3(3)] obtain s4 where 4: "s3 = 41 # s4"
    "match_items [Star is_space, Eos] False s4 = Some rest" by blast
  from star_split [OF 4(2)] obtain c s5 b5 where 5: "s4 = c @ s5" "list_all is_space c"
    "match_items [Eos] b5 s5 = Some rest" by blast
  have "s5 = []" using 5(3) by (auto split: if_splits)
  then have "str = a @ 40 # m @ 41 # c" using 1(1) 2(1) 3(1) 4(1) 5(1) by simp
  then show ?thesis using 1(2) 3(2) 5(2) by blast
qed

lemma space_prefix_unique:
  assumes "a @ x # u = b @ y # v" "list_all is_space a" "list_all is_space b"
    "\<not> is_space x" "\<not> is_space y"
  shows "a = b \<and> x = y \<and> u = v"
proof -
  have "takeWhile is_space (a @ x # u) = a"
    using assms(2,4) by (simp add: takeWhile_append list_all_iff)
  moreover have "takeWhile is_space (b @ y # v) = b"
    using assms(3,5) by (simp add: takeWhile_append list_all_iff)
  ultimately have "a = b" using assms(1) by simp
  then show ?thesis using assms(1) by simp
qed

lemma paren_line_terminator:
  assumes "trim (strip_chars (trim s)) = 40 # mid @ [41]"
    and "\<not> list_all (\<lambda>c. \<not> is_line_terminator c) mid"
  shows "\<not> test paren_re (strip_chars (trim s))"
proof
  assume t: "test paren_re (strip_chars (trim s))"
  obtain ws1 ws2 where ws: "list_all is_space ws1" "list_all is_space ws2"
    "strip_chars (trim s) = ws1 @ trim (strip_chars (trim s)) @ ws2"
    using trim_decompose by blast
  from paren_re_sound [OF t] obtain a m c where d:
    "strip_chars (trim s) = a @ 40 # m @ 41 # c" "list_all is_space a"
    "list_all (\<lambda>c. \<not> is_line_terminator c) m" "list_all is_space c" by blast
  have ns: "\<not> is_space 40" "\<not> is_space 41"
    by (simp_all add: is_space_def is_line_terminator_def)
  have e: "a @ 40 # (m @ 41 # c) = ws1 @ 40 # (mid @ 41 # ws2)"
    using d(1) ws(3) assms(1) by simp
  from space_prefix_unique [OF e d(2) ws(1) ns(1) ns(1)]
  have "m @ 41 # c = mid @ 41 # ws2" by simp
  then have "rev c @ 41 # rev m = rev ws2 @ 41 # rev mid"
    by (metis rev.simps(2) rev_append append_assoc append_Cons append_Nil)
  moreover have "list_all is_space (rev c)" "list_all is_space (rev ws2)"
    using d(4) ws(2) by (simp_all add: list_all_iff)
  ultimately have "rev m = rev mid"
    using space_prefix_unique ns(2) by blast
  then show False using d(3) assms(2) by simp
qed

section \<open>The steps of parseNumberFromString\<close>

lemma parse_cleaned:
  "trim s \<noteq> [] \<Longrightarrow>
   parseNumberFromString s = to_value (test paren_re (strip_chars (trim s))) (cleaned s)"
  by (simp add: parseNumberFromString_def cleaned_def Let_def)

lemma match_all_One: "match_all [One p] b s = map (\<lambda>c. [c]) (filter p s)"
  by (induction s arbitrary: b) simp_all

lemma dotCount_filter: "dotCount str = length (filter (\<lambda>c. c = 46) str)"
  by (cases "filter (\<lambda>c. c = 46) str") (simp_all add: dotCount_def js_match_def match_all_One)

lemma lastIndexOf_split:
  "c \<notin> set post \<Longrightarrow> lastIndexOf (pre @ c # post) c = int (length pre)"
proof -
  assume n: "c \<notin> set post"
  have "takeWhile (\<lambda>x. x \<noteq> c) (rev post @ c # rev pre) = rev post"
    using n by (simp add: takeWhile_append)
  then show ?thesis by (simp add: lastIndexOf_def)
qed

lemma slice_prefix: "str_slice (pre @ post) 0 (int (length pre)) = pre"
  by (simp add: str_slice_def slice_index_def)

lemma slice_from_prefix: "str_slice_from (pre @ post) (int (length pre)) = post"
  by (simp add: str_slice_from_def slice_index_def)

lemma resolve_two_dots:
  assumes "1 < dotCount str" "remove_commas str = pre @ 46 # post" "46 \<notin> set post"
  shows "resolve_separators str = remove_dots pre @ 46 # post"
  using assms
  by (simp add: resolve_separators_def Let_def lastIndexOf_split slice_prefix slice_from_prefix)

lemma no_comma_resolved: "44 \<notin> set (resolve_separators str)"
proof -
  have "set (str_slice s a b) \<subseteq> set s" for s a b
    by (auto simp: str_slice_def dest: in_set_dropD in_set_takeD)
  moreover have "set (str_slice_from s a) \<subseteq> set s" for s a
    by (auto simp: str_slice_from_def dest: in_set_dropD)
  moreover have "44 \<notin> set (remove_commas str)" by (simp add: remove_commas_def)
  ultimately show ?thesis
    unfolding resolve_separators_def Let_def remove_dots_def
    by (simp only: set_append set_filter split: if_split) blast
qed

lemma commas_to_dots_id: "44 \<notin> set s \<Longrightarrow> commas_to_dots s = s"
  by (induction s) (simp_all add: commas_to_dots_def)


section \<open>Number on digits\<close>

lemma trim_id: "\<forall>c\<in>set s. \<not> is_space c \<Longrightarrow> trim s = s"
proof -
  assume a: "\<forall>c\<in>set s. \<not> is_space c"
  have "dropWhile is_space t = t" if "set t \<subseteq> set s" for t
    using that a by (cases t) auto
  then show ?thesis by (simp add: trim_def)
qed

lemma digit_not_space: "is_digit c \<Longrightarrow> \<not> is_space c"
  by (auto simp: is_digit_def is_space_def is_line_terminator_def word_le_nat_alt)

lemma takeWhile_all: "list_all p xs \<Longrightarrow> takeWhile p xs = xs"
  by (simp add: list_all_iff)

lemma dropWhile_all: "list_all p xs \<Longrightarrow> dropWhile p xs = []"
  by (simp add: list_all_iff)



lemma unsigned_decimal_dotted:
  assumes "list_all is_digit a" "list_all is_digit b" "a @ b \<noteq> []"
  shows "unsigned_decimal sg (a @ 46 # b) = fp_round sg (of_nat (dec_val (a @ b)) / 10 ^ length b)"
proof -
  have ninf: "a @ 46 # b \<noteq> js ''Infinity''"
  proof
    assume "a @ 46 # b = js ''Infinity''"
    then have "46 \<in> set (js ''Infinity'')" by (metis in_set_conv_decomp)
    then show False by (simp add: js_def)
  qed
  have nd: "\<not> is_digit 46" by (simp add: is_digit_def)
  have tw: "takeWhile is_digit (a @ 46 # b) = a"
    using assms(1) nd by (simp add: takeWhile_append list_all_iff)
  have dw: "dropWhile is_digit (a @ 46 # b) = 46 # b"
    using assms(1) nd by (simp add: dropWhile_append list_all_iff)
  have p: "(10::rat) powi (- int (length b)) = 1 / 10 ^ length b"
    by (simp add: power_int_minus_divide)
  show ?thesis
    using assms(2,3)
    by (auto simp add: unsigned_decimal_def ninf tw dw takeWhile_all dropWhile_all
        exponent_part_def Let_def p)
qed

lemma radix_prefix_digdot:
  "list_all (\<lambda>c. is_digit c \<or> c = 46) (tl t) \<Longrightarrow> radix_prefix t = None"
  by (auto simp: radix_prefix_def is_digit_def split: list.splits)



lemma Number_dotted:
  assumes "list_all is_digit a" "list_all is_digit b" "a @ b \<noteq> []"
  shows "Number (a @ 46 # b) = fp_round False (of_nat (dec_val (a @ b)) / 10 ^ length b)"
proof -
  have "\<not> is_space 46" by (simp add: is_space_def is_line_terminator_def)
  then have t: "trim (a @ 46 # b) = a @ 46 # b"
    using assms(1,2) by (intro trim_id) (auto simp: list_all_iff digit_not_space)
  have r: "radix_prefix (a @ 46 # b) = None"
    using assms(1,2) by (intro radix_prefix_digdot) (cases a, auto simp: list_all_iff)
  have h: "hd (a @ 46 # b) \<noteq> 45" "hd (a @ 46 # b) \<noteq> 43"
    using assms(1) by (cases a; auto simp: is_digit_def)+
  show ?thesis
    using assms by (simp add: Number_def t r h unsigned_decimal_dotted del: append_is_Nil_conv)
qed






lemma filter_id: "\<forall>c\<in>set s. p c \<Longrightarrow> filter p s = s"
  by (simp add: filter_id_conv)




section \<open>Several dots\<close>

lemma dots_filter: "p 46 \<Longrightarrow> filter (\<lambda>c. c = 46) (filter p s) = filter (\<lambda>c. c = 46) s"
  by (induction s) auto

lemma dots_dropWhile: "filter (\<lambda>c. c = 46) (dropWhile is_space s) = filter (\<lambda>c. c = 46) s"
  by (induction s) (auto simp: is_space_def is_line_terminator_def)

lemma dots_trim: "filter (\<lambda>c. c = 46) (trim s) = filter (\<lambda>c. c = 46) s"
  by (simp add: trim_def dots_dropWhile flip: rev_filter)

lemma dots_compact:
  "filter (\<lambda>c. c = 46) (remove_spaces (remove_parens (strip_chars (trim s))))
   = filter (\<lambda>c. c = 46) s"
proof -
  have "kept 46" "\<not> (46 = (40::jschar) \<or> 46 = (41::jschar))" "\<not> is_space 46"
    by (simp_all add: kept_def is_space_def is_line_terminator_def)
  then have "filter (\<lambda>c. c = 46) (remove_spaces (remove_parens (strip_chars t)))
               = filter (\<lambda>c. c = 46) t" for t
    unfolding remove_spaces_def remove_parens_def strip_chars_def
    by (induction t) auto
  then show ?thesis by (simp add: dots_trim)
qed

lemma takeWhile_filter_commute:
  "(\<And>x. \<not> p x \<Longrightarrow> q x) \<Longrightarrow> takeWhile p (filter q xs) = filter q (takeWhile p xs)"
  by (induction xs) auto

lemma several_dots_resolved:
  assumes "1 < length (filter (\<lambda>c. c = 46) s)"
  shows "\<exists>pre post.
           remove_commas (remove_spaces (remove_parens (strip_chars (trim s)))) = pre @ 46 # post
           \<and> 46 \<notin> set post
           \<and> cleaned s = remove_dots pre @ 46 # post
           \<and> parseNumberFromString s
               = to_value (test paren_re (strip_chars (trim s))) (remove_dots pre @ 46 # post)"
proof -
  define u where "u = remove_spaces (remove_parens (strip_chars (trim s)))"
  have du: "filter (\<lambda>c. c = 46) u = filter (\<lambda>c. c = 46) s"
    by (simp add: u_def dots_compact)
  have dc: "1 < dotCount u" using assms by (simp add: dotCount_filter du)
  have "filter (\<lambda>c. c = 46) (remove_commas u) = filter (\<lambda>c. c = 46) s"
    unfolding remove_commas_def du [symmetric] by (induction u) auto
  then have "filter (\<lambda>c. c = 46) (remove_commas u) \<noteq> []" using assms by auto
  then have "46 \<in> set (remove_commas u)" by (auto simp: filter_empty_conv)
  then obtain pre post where sp: "remove_commas u = pre @ 46 # post" "46 \<notin> set post"
    by (meson split_list_last)
  have r: "resolve_separators u = remove_dots pre @ 46 # post"
    using dc sp by (rule resolve_two_dots)
  have "filter (\<lambda>c. c = 46) (trim s) \<noteq> []" using assms by (auto simp: dots_trim)
  then have ne: "trim s \<noteq> []" by auto
  have "parseNumberFromString s
          = to_value (test paren_re (strip_chars (trim s))) (remove_dots pre @ 46 # post)"
    using parse_cleaned [OF ne] r by (simp add: cleaned_def u_def)
  then show ?thesis using sp r by (auto simp: cleaned_def u_def)
qed

lemma several_dots_value:
  assumes "1 < length (filter (\<lambda>c. c = 46) s)"
    and al: "list_all (\<lambda>c. is_digit c \<or> c = 46 \<or> c = 44) s"
    and ex: "list_ex is_digit s"
  shows "parseNumberFromString s =
           Some (fp_round False (of_nat (dec_val (filter is_digit s))
                  / 10 ^ length (filter is_digit (takeWhile (\<lambda>c. c \<noteq> 46) (rev s)))))"
proof -
  have c46: "\<not> is_space 46" "\<not> is_space 44" "\<not> is_digit 46" "\<not> is_digit 44"
    by (simp_all add: is_space_def is_line_terminator_def is_digit_def)
  have ns: "\<forall>c\<in>set s. \<not> is_space c"
    using al c46 digit_not_space by (auto simp: list_all_iff)
  have t: "trim s = s" using ns by (rule trim_id)
  have k: "strip_chars s = s"
    unfolding strip_chars_def using al by (intro filter_id) (auto simp: kept_def list_all_iff)
  have p: "remove_parens s = s"
    unfolding remove_parens_def using al
    by (intro filter_id) (auto simp: is_digit_def list_all_iff)
  have sp: "remove_spaces s = s"
    unfolding remove_spaces_def using ns by (intro filter_id) simp
  have "40 \<notin> set s" using al by (auto simp: is_digit_def list_all_iff)
  then have np: "\<not> test paren_re s" by (rule test_paren_no_open)
  obtain pre post where sp2: "remove_commas s = pre @ 46 # post" "46 \<notin> set post"
    and pv: "parseNumberFromString s = to_value False (remove_dots pre @ 46 # post)"
    using several_dots_resolved [OF assms(1)] by (auto simp: t k p sp np)
  have alt: "\<forall>c\<in>set (pre @ 46 # post). is_digit c \<or> c = 46"
    using al unfolding sp2(1) [symmetric] remove_commas_def by (auto simp: list_all_iff)
  have post: "list_all is_digit post" using alt sp2(2) by (auto simp: list_all_iff)
  have pre: "remove_dots pre = filter is_digit pre"
    unfolding remove_dots_def using alt c46 by (intro filter_cong) auto
  have dg: "filter is_digit s = filter is_digit pre @ post"
  proof -
    have "filter is_digit (remove_commas s) = filter is_digit s"
      unfolding remove_commas_def filter_filter using c46 by (intro filter_cong) auto
    moreover have "filter is_digit post = post" using post by (simp add: list_all_iff)
    ultimately show ?thesis using c46 by (simp add: sp2(1))
  qed
  have ne: "filter is_digit pre @ post \<noteq> []"
    using ex unfolding dg [symmetric] by (auto simp: list_ex_iff filter_empty_conv)
  have ln: "length (filter is_digit (takeWhile (\<lambda>c. c \<noteq> 46) (rev s))) = length post"
  proof -
    have "takeWhile (\<lambda>c. c \<noteq> 46) (filter (\<lambda>c. c \<noteq> 44) (rev s))
            = filter (\<lambda>c. c \<noteq> 44) (takeWhile (\<lambda>c. c \<noteq> 46) (rev s))"
      by (rule takeWhile_filter_commute) simp
    moreover have "filter (\<lambda>c. c \<noteq> 44) (rev s) = rev post @ 46 # rev pre"
      using sp2(1) by (simp add: remove_commas_def flip: rev_filter)
    moreover have "takeWhile (\<lambda>c. c \<noteq> 46) (rev post @ 46 # rev pre) = rev post"
      using sp2(2) by (simp add: takeWhile_append)
    ultimately have "filter (\<lambda>c. c \<noteq> 44) (takeWhile (\<lambda>c. c \<noteq> 46) (rev s)) = rev post"
      by simp
    then have "filter is_digit (filter (\<lambda>c. c \<noteq> 44) (takeWhile (\<lambda>c. c \<noteq> 46) (rev s)))
                 = filter is_digit (rev post)" by simp
    moreover have "filter is_digit (filter (\<lambda>c. c \<noteq> 44) xs) = filter is_digit xs" for xs
      unfolding filter_filter using c46 by (intro filter_cong) auto
    moreover have "filter is_digit (rev post) = rev post"
      using post by (simp add: list_all_iff)
    ultimately show ?thesis by (metis length_rev)
  qed
  have fa: "list_all is_digit (filter is_digit pre)" by (simp add: list_all_iff)
  have nb: "Number (filter is_digit pre @ 46 # post)
              = fp_round False (of_nat (dec_val (filter is_digit pre @ post)) / 10 ^ length post)"
    using fa post ne by (rule Number_dotted)
  show ?thesis
    by (simp add: pv pre to_value_def nb Let_def dg ln)
qed

section \<open>The loops\<close>

lemmas eval_defs = char_defs str_defs re_defs num_defs parseNumberFromString_def
  resolve_separators_def to_value_def Let_def

lemma add_tokens_foldl:
  "add_tokens subtotal ts = foldl fp_add subtotal (List.map_filter parseNumberFromString ts)"
  by (induction ts arbitrary: subtotal) (simp_all add: List.map_filter_simps split: option.splits)

lemma map_filter_append:
  "List.map_filter f (xs @ ys) = List.map_filter f xs @ List.map_filter f ys"
  by (simp add: List.map_filter_def)

lemma add_cells_foldl:
  "add_cells subtotal ss =
     foldl fp_add subtotal
       (List.map_filter parseNumberFromString (concat (map (match_all token_re True) ss)))"
proof (induction ss arbitrary: subtotal)
  case Nil
  then show ?case by (simp add: List.map_filter_simps)
next
  case (Cons s ss)
  show ?case
  proof (cases "js_match token_re s")
    case None
    then have "match_all token_re True s = []"
      by (simp add: js_match_def split: list.splits)
    then show ?thesis using None Cons by (simp add: List.map_filter_simps)
  next
    case (Some ts)
    then have "match_all token_re True s = ts"
      by (simp add: js_match_def split: list.splits)
    then show ?thesis using Some Cons by (simp add: map_filter_append add_tokens_foldl)
  qed
qed

lemma map_filter_none: "\<forall>t\<in>set ts. f t = None \<Longrightarrow> List.map_filter f ts = []"
  by (induction ts) (simp_all add: List.map_filter_simps)

section \<open>Inputs without a digit\<close>





section \<open>Properties\<close>

text \<open>
  C1. The claim: the page accumulation over the cell texts \<^verbatim>\<open>Revenue: $1,200\<close> and
  \<^verbatim>\<open>Cost: (300)\<close> yields 900, the second cell counting as -300. The code yields 1500:
  a token ends on a digit, so the token of the second cell is \<^verbatim>\<open>(300\<close>, without its
  closing parenthesis, the pattern of line 37 does not match it, and it counts as 300.
\<close>

theorem accumulate_revenue_cost:
  "accumulate [js ''Revenue: $1,200'', js ''Cost: (300)''] = Fin False 1500
   \<and> js_match token_re (js ''Cost: (300)'') = Some [js ''(300'']
   \<and> parseNumberFromString (js ''(300'') = Some (Fin False 300)"
  by (simp add: accumulate_def eval_defs fp_round_numeral fp_val_def)

text \<open>
  C2. The claim: a lone digit such as \<^verbatim>\<open>5\<close> is a token. In the code it is not: the
  pattern of line 158 asks for a digit, then any run of the inner class, then another
  digit, so a token has at least two digits, no text of one code unit has a token, and the
  cell \<^verbatim>\<open>5\<close> adds nothing to the subtotal.
\<close>

theorem single_digit_no_token:
  "js_match token_re (js ''5'') = None \<and> js_match token_re [c] = None
   \<and> accumulate [js ''5''] = Fin False 0"
  by (simp add: accumulate_def js_match_def token_re_def js_def)

text \<open>
  C3. The claim: \<^verbatim>\<open>1234,56\<close> is parsed as 1234.56 by the retry that turns commas into
  dots. In the code the comma is removed at line 47, before the first parse, which then
  succeeds with 123456; the retry is not reached.
\<close>

theorem comma_decimal_parse:
  "parseNumberFromString (js ''1234,56'') = Some (Fin False 123456)
   \<and> cleaned (js ''1234,56'') = js ''123456''"
  by (simp add: cleaned_def eval_defs fp_round_numeral)




text \<open>
  So it is for every such token: with a line terminator between the parentheses the sign
  is left as parsed.
\<close>

lemma paren_line_terminator_value:
  assumes "trim (strip_chars (trim s)) = 40 # mid @ [41]"
    and "\<not> list_all (\<lambda>c. \<not> is_line_terminator c) mid"
  shows "parseNumberFromString s =
           (if Number (cleaned s) = NaN then None else Some (Number (cleaned s)))"
proof -
  have ne: "trim s \<noteq> []"
  proof
    assume e: "trim s = []"
    have "trim (strip_chars (trim s)) = []"
      unfolding e by (simp add: strip_chars_def trim_def)
    then show False using assms(1) by simp
  qed
  have tp: "\<not> test paren_re (strip_chars (trim s))"
    using assms by (rule paren_line_terminator)
  have cd: "commas_to_dots (cleaned s) = cleaned s"
    by (simp add: cleaned_def commas_to_dots_id no_comma_resolved)
  show ?thesis
    by (simp add: parse_cleaned [OF ne] tp to_value_def cd Let_def)
qed

text \<open>
  C5. For every token with more than one dot: once the commas are gone the string is
  \<open>pre\<close>, the last dot, \<open>post\<close>; what is parsed is \<open>pre\<close> without its dots, the dot,
  \<open>post\<close>. When the token is made of digits, dots and commas and has a digit, its value is
  therefore the number written by all its digits, with the decimal point before the digits
  that follow the last dot.
\<close>

theorem last_dot_is_decimal_point:
  assumes "1 < length (filter (\<lambda>c. c = 46) s)"
  shows "(\<exists>pre post.
            remove_commas (remove_spaces (remove_parens (strip_chars (trim s)))) = pre @ 46 # post
            \<and> 46 \<notin> set post
            \<and> cleaned s = remove_dots pre @ 46 # post
            \<and> parseNumberFromString s
                = to_value (test paren_re (strip_chars (trim s))) (remove_dots pre @ 46 # post))
         \<and> (list_all (\<lambda>c. is_digit c \<or> c = 46 \<or> c = 44) s \<and> list_ex is_digit s \<longrightarrow>
              parseNumberFromString s =
                Some (fp (of_nat (dec_val (filter is_digit s))
                       / 10 ^ length (filter is_digit (takeWhile (\<lambda>c. c \<noteq> 46) (rev s))))))"
proof -
  have nn: "fp_round False x = fp x" if "0 \<le> x" for x
    using that by (simp add: fp_def)
  have "(0::rat) \<le> of_nat (dec_val (filter is_digit s))
                 / 10 ^ length (filter is_digit (takeWhile (\<lambda>c. c \<noteq> 46) (rev s)))"
    by simp
  then show ?thesis
    using several_dots_resolved [OF assms] several_dots_value [OF assms]
    by (simp only: nn) blast
qed

text \<open>The theorem at \<^verbatim>\<open>1.234.567\<close>, which is parsed as 1234.567.\<close>

theorem last_dot_is_decimal_point_witness:
  "1 < length (filter (\<lambda>c. c = 46) (js ''1.234.567''))
   \<and> parseNumberFromString (js ''1.234.567'') = Some (fp 1234.567)"
proof -
  have h: "1 < length (filter (\<lambda>c. c = 46) (js ''1.234.567''))"
    by (simp add: js_def)
  have a: "list_all (\<lambda>c. is_digit c \<or> c = 46 \<or> c = 44) (js ''1.234.567'')"
    "list_ex is_digit (js ''1.234.567'')"
    by (simp_all add: js_def is_digit_def)
  have d: "dec_val (filter is_digit (js ''1.234.567'')) = 1234567"
    "length (filter is_digit (takeWhile (\<lambda>c. c \<noteq> 46) (rev (js ''1.234.567'')))) = 3"
    by (simp_all add: js_def is_digit_def dec_val_def digit_val_def)
  have "(1234567::rat) / 10 ^ 3 = 1234.567" by simp
  then show ?thesis
    using last_dot_is_decimal_point [OF h] h a by (simp add: d)
qed

text \<open>
  C6. For every string without a digit the pattern of line 158 has no match: \<^verbatim>\<open>match\<close>
  returns \<^verbatim>\<open>null\<close>, the guard of line 159 skips the cell, and the subtotal stays as it
  was.
\<close>

theorem no_digit_no_token:
  assumes "\<forall>c\<in>set s. \<not> is_digit c"
  shows "match_all token_re True s = [] \<and> js_match token_re s = None
         \<and> add_cells subtotal [s] = subtotal"
proof -
  have "One is_digit \<in> set token_re" by (simp add: token_re_def)
  then have "match_all token_re True s = []" using assms by (intro match_all_none)
  then show ?thesis by (simp add: js_match_def)
qed

theorem no_digit_no_token_witness:
  "list_all (\<lambda>c. \<not> is_digit c) (js ''n/a'') \<and> match_all token_re True (js ''n/a'') = []
   \<and> js_match token_re (js ''n/a'') = None
   \<and> add_cells (Fin False 7) [js ''n/a''] = Fin False 7"
proof -
  have h: "\<forall>c\<in>set (js ''n/a''). \<not> is_digit c" by (simp add: js_def is_digit_def)
  show ?thesis using no_digit_no_token [OF h, of "Fin False 7"] h by (simp add: list_all_iff)
qed

text \<open>
  C7. The page accumulator has a result for every sequence of cell texts (no operation of
  the loop can throw, and the model has no error branch): the sum, from +0 and in order, of
  the values of the tokens that \<open>parseNumberFromString\<close> accepts, the others being left
  out. So the empty sequence gives 0, and so does a page none of whose tokens is accepted.
\<close>

theorem accumulate_never_fails:
  "accumulate [] = Fin False 0
   \<and> pageNumbersTotal [] [] = Fin False 0
   \<and> accumulate cellTexts =
       foldl fp_add (Fin False 0)
         (List.map_filter parseNumberFromString
            (concat (map (match_all token_re True) cellTexts)))
   \<and> ((\<forall>t\<in>set (concat (map (match_all token_re True) cellTexts)).
          parseNumberFromString t = None)
        \<longrightarrow> accumulate cellTexts = Fin False 0)"
  by (simp add: accumulate_def pageNumbersTotal_def add_cells_foldl map_filter_none
      del: set_concat)

text \<open>A page whose only token, \<^verbatim>\<open>--12\<close>, is rejected.\<close>

theorem accumulate_never_fails_witness:
  "list_all (\<lambda>t. parseNumberFromString t = None)
     (concat (map (match_all token_re True) [js ''--12'', js ''n/a'']))
   \<and> concat (map (match_all token_re True) [js ''--12'', js ''n/a'']) = [js ''--12'']
   \<and> accumulate [js ''--12'', js ''n/a''] = Fin False 0"
proof -
  have t: "concat (map (match_all token_re True) [js ''--12'', js ''n/a'']) = [js ''--12'']"
    by (simp add: char_defs str_defs re_defs)
  have p: "parseNumberFromString (js ''--12'') = None"
    by (simp add: eval_defs)
  have h: "\<forall>t\<in>set (concat (map (match_all token_re True) [js ''--12'', js ''n/a''])).
      parseNumberFromString t = None"
    unfolding t using p by simp
  have "accumulate [js ''--12'', js ''n/a''] = Fin False 0"
    using accumulate_never_fails [of "[js ''--12'', js ''n/a'']"] h by blast
  moreover have "list_all (\<lambda>t. parseNumberFromString t = None)
     (concat (map (match_all token_re True) [js ''--12'', js ''n/a'']))"
    unfolding t using p by simp
  ultimately show ?thesis using t by blast
qed





text \<open>
  The plain form matters. From \<open>10 ^ 21\<close> on \<^verbatim>\<open>String(n)\<close> is in exponent form, and of
  \<^verbatim>\<open>1e+21\<close> line 34 keeps the digits only.
\<close>

lemma exponent_form_parse: "parseNumberFromString (js ''1e+21'') = Some (Fin False 121)"
  by (simp add: eval_defs fp_round_numeral)

text \<open>
  C10. The retry of lines 58 to 61 changes nothing: the string that is parsed has no
  comma, so the retry parses the same string again, and \<open>parseNumberFromString\<close> equals
  the function without the retry on every input.
\<close>

theorem retry_never_taken:
  "parseNumberFromString s = parseNumberFromString_no_retry s
   \<and> 44 \<notin> set (cleaned s)
   \<and> commas_to_dots (cleaned s) = cleaned s
   \<and> (Number (cleaned s) = NaN \<longrightarrow> Number (commas_to_dots (cleaned s)) = NaN)"
  by (simp add: parseNumberFromString_def parseNumberFromString_no_retry_def to_value_def
      to_value_no_retry_def Let_def cleaned_def commas_to_dots_id no_comma_resolved)

theorem retry_never_taken_witness:
  "Number (cleaned (js ''--'')) = NaN \<and> Number (commas_to_dots (cleaned (js ''--''))) = NaN
   \<and> parseNumberFromString (js ''--'') = None
   \<and> parseNumberFromString_no_retry (js ''--'') = None"
proof -
  have h: "Number (cleaned (js ''--'')) = NaN"
    by (simp add: cleaned_def eval_defs)
  have p: "parseNumberFromString (js ''--'') = None" by (simp add: eval_defs)
  show ?thesis using retry_never_taken [of "js ''--''"] h p by simp
qed

end
